theory Spec2Isabelle
  imports Complex_Main "HOL-Library.Char_ord" "HOL-Library.List_Lexorder" "HOL-Library.Multiset"
begin

section \<open>Numbers of the dataframe columns\<close>

text \<open>
  The integer columns (\<open>votes\<close>, \<open>total_voters\<close>, ...) are \<open>int\<close>; the 64-bit limit of
  pandas' \<open>int64\<close> is not reached by any figure of the portal and is not modelled.

  A \<open>float64\<close> cell is either not-a-number, an infinity, or a finite value. Finite values
  are carried as exact rationals: the binary rounding of each operation (an error of
  about 1e-16 relative) and signed zeros are not modelled. Every statement below about a
  finite value is therefore a statement about the exactly computed figure, and none
  depends on which way a figure exactly half-way between two hundredths is rounded.
\<close>

datatype float64 = NaN | PInf | NInf | Fin rat

fun isnan :: "float64 \<Rightarrow> bool" where
  "isnan NaN = True"
| "isnan _ = False"

fun isfinite :: "float64 \<Rightarrow> bool" where
  "isfinite (Fin _) = True"
| "isfinite _ = False"

text \<open>The sign of a cell that is a number: 1, 0 or -1.\<close>

fun fsgn :: "float64 \<Rightarrow> int" where
  "fsgn PInf = 1"
| "fsgn NInf = - 1"
| "fsgn (Fin a) = (if a > 0 then 1 else if a < 0 then - 1 else 0)"
| "fsgn NaN = 0"

definition inf_of_sign :: "int \<Rightarrow> float64" where
  "inf_of_sign s = (if s = 0 then NaN else if s > 0 then PInf else NInf)"

fun fadd :: "float64 \<Rightarrow> float64 \<Rightarrow> float64" where
  "fadd (Fin a) (Fin b) = Fin (a + b)"
| "fadd NaN _ = NaN"
| "fadd _ NaN = NaN"
| "fadd PInf NInf = NaN"
| "fadd NInf PInf = NaN"
| "fadd PInf _ = PInf"
| "fadd _ PInf = PInf"
| "fadd NInf _ = NInf"
| "fadd _ NInf = NInf"

fun fmul :: "float64 \<Rightarrow> float64 \<Rightarrow> float64" where
  "fmul (Fin a) (Fin b) = Fin (a * b)"
| "fmul NaN _ = NaN"
| "fmul _ NaN = NaN"
| "fmul x y = inf_of_sign (fsgn x * fsgn y)"

text \<open>
  Division as numpy does it under pandas (no exception, \<open>errstate\<close> ignored): a finite
  numerator over zero is an infinity of the numerator's sign, zero over zero is NaN.
\<close>

fun fdiv :: "float64 \<Rightarrow> float64 \<Rightarrow> float64" where
  "fdiv (Fin a) (Fin b) =
     (if b \<noteq> 0 then Fin (a / b)
      else if a = 0 then NaN else if a > 0 then PInf else NInf)"
| "fdiv NaN _ = NaN"
| "fdiv _ NaN = NaN"
| "fdiv (Fin a) _ = Fin 0"
| "fdiv x (Fin b) = (if b \<ge> 0 then x else inf_of_sign (- fsgn x))"
| "fdiv _ _ = NaN"

text \<open>\<open>numpy.rint\<close>: the nearest integer, a tie going to the even neighbour.\<close>

definition rint :: "rat \<Rightarrow> int" where
  "rint x =
     (let f = \<lfloor>x\<rfloor>; d = x - of_int f
      in if d < 1 / 2 then f
         else if d > 1 / 2 then f + 1
         else if even f then f else f + 1)"

text \<open>
  \<open>Series.round(2)\<close>, that is \<open>numpy.round(x, 2) = rint(x * 100) / 100\<close>, applied to the
  exactly computed figure. Where that figure is an exact tie between two hundredths, the
  float64 value the code rounds lies a last bit to one side of it, and the code's result
  may be either neighbour: \<open>414.0 / 2880.0 * 100\<close> is 14.375 exactly and
  14.374999999999998 in float64, which the code rounds to 14.37 and this function to
  14.38. No statement below fixes the direction of a tie: each holds of both neighbours.
\<close>

fun fround2 :: "float64 \<Rightarrow> float64" where
  "fround2 (Fin a) = Fin (of_int (rint (a * 100)) / 100)"
| "fround2 x = x"

text \<open>Python's \<open>int(x)\<close> and \<open>astype(int)\<close> on a finite float: truncation towards zero.\<close>

definition py_int :: "rat \<Rightarrow> int" where
  "py_int x = (if x \<ge> 0 then \<lfloor>x\<rfloor> else \<lceil>x\<rceil>)"

text \<open>
  \<open>Series.sum()\<close> and the group-wise \<open>mean\<close> skip NaN cells (\<open>skipna\<close>); the sum of no cell
  is 0 and the mean of no cell is NaN.
\<close>

definition fsum :: "float64 list \<Rightarrow> float64" where
  "fsum xs = foldl fadd (Fin 0) xs"

definition nansum :: "float64 list \<Rightarrow> float64" where
  "nansum xs = fsum (filter (\<lambda>x. \<not> isnan x) xs)"

definition nanmean :: "float64 list \<Rightarrow> float64" where
  "nanmean xs =
     (let ys = filter (\<lambda>x. \<not> isnan x) xs
      in if ys = [] then NaN else fdiv (fsum ys) (Fin (of_nat (length ys))))"

section \<open>The record set\<close>

text \<open>
  One dictionary of \<open>data_list\<close> (a row of the dataframe before the derived columns are
  assigned), and the same row once \<open>total_constituency_votes\<close> and \<open>vote_share_pct\<close>
  exist. A function over \<open>'a vote_record_scheme\<close> reads a frame with at least the first
  eight columns.
\<close>

record vote_record =
  region :: string
  constituency_id :: int
  constituency_name :: string
  total_voters :: int
  party :: string
  votes :: int
  counting_status :: string
  counted_votes :: int

record derived_record = vote_record +
  total_constituency_votes :: int
  vote_share_pct :: float64

section \<open>Derivation (\<open>generate_election_data\<close>, the two column assignments)\<close>

text \<open>
  \<open>df.groupby('constituency_name')['votes'].transform('sum')\<close>: every row receives the
  sum of \<open>votes\<close> over the rows of the frame with its own \<open>constituency_name\<close>.
\<close>

definition transform_sum :: "'a vote_record_scheme list \<Rightarrow> string \<Rightarrow> int" where
  "transform_sum df c = sum_list (map votes (filter (\<lambda>s. constituency_name s = c) df))"

text \<open>\<open>(df['votes'] / df['total_constituency_votes'] * 100).round(2)\<close> for one row.\<close>

definition share_of :: "int \<Rightarrow> int \<Rightarrow> float64" where
  "share_of v t = fround2 (fmul (fdiv (Fin (of_int v)) (Fin (of_int t))) (Fin 100))"

definition derive_row :: "'a vote_record_scheme list \<Rightarrow> 'a vote_record_scheme \<Rightarrow> derived_record" where
  "derive_row df r =
     (let t = transform_sum df (constituency_name r)
      in \<lparr> region = region r, constituency_id = constituency_id r,
           constituency_name = constituency_name r, total_voters = total_voters r,
           party = party r, votes = votes r, counting_status = counting_status r,
           counted_votes = counted_votes r,
           total_constituency_votes = t,
           vote_share_pct = share_of (votes r) t \<rparr>)"

text \<open>
  Assigning a column adds it, or overwrites it when the frame has it already; the other
  columns of the schema are kept.
\<close>

definition derive :: "'a vote_record_scheme list \<Rightarrow> derived_record list" where
  "derive df = map (derive_row df) df"

section \<open>Scoring (\<open>predict_winner_ensemble\<close>)\<close>

text \<open>
  One row of \<open>party_stats\<close> after the aggregation and the renaming of its columns, and
  the same row once \<open>score\<close>, \<open>win_probability\<close> and \<open>predicted_votes\<close> are assigned.
  The column \<open>std_votes\<close> (the sample standard deviation, a square root) is read by no
  later line of the function and is left out.
\<close>

record party_stats =
  stat_party :: string
  total_votes :: int
  avg_votes :: float64
  count :: nat
  avg_share :: float64

record party_aggregate = party_stats +
  score :: float64
  win_probability :: float64
  predicted_votes :: int

text \<open>
  \<open>df.groupby('party')\<close>: one group for each distinct party of the frame, the keys in
  ascending order (\<open>sort=True\<close>), each group holding the rows of its party.
\<close>

definition group_keys :: "'a derived_record_scheme list \<Rightarrow> string list" where
  "group_keys df = sort (remdups (map party df))"

definition group_rows :: "'a derived_record_scheme list \<Rightarrow> string \<Rightarrow> 'a derived_record_scheme list" where
  "group_rows df p = filter (\<lambda>r. party r = p) df"

text \<open>
  \<open>.agg({'votes': ['sum', 'mean', 'std', 'count'], 'vote_share_pct': 'mean'})\<close> on one
  group. \<open>votes\<close> is an integer column, so \<open>count\<close> is the number of rows of the group.
\<close>

definition agg :: "'a derived_record_scheme list \<Rightarrow> string \<Rightarrow> party_stats" where
  "agg df p =
     (let g = group_rows df p
      in \<lparr> stat_party = p,
           total_votes = sum_list (map votes g),
           avg_votes = fdiv (Fin (of_int (sum_list (map votes g)))) (Fin (of_nat (length g))),
           count = length g,
           avg_share = nanmean (map vote_share_pct g) \<rparr>)"

text \<open>
  \<open>total_votes * 0.5 + count * 1000 * 0.3 + avg_share * 100 * 0.2\<close>, with Python's
  grouping of the operators.
\<close>

definition score_of :: "'a party_stats_scheme \<Rightarrow> float64" where
  "score_of s =
     fadd (fadd (fmul (Fin (of_int (total_votes s))) (Fin (5 / 10)))
                (fmul (Fin (of_int (int (count s) * 1000))) (Fin (3 / 10))))
          (fmul (fmul (avg_share s) (Fin 100)) (Fin (2 / 10)))"

text \<open>The comparison \<open>\<le>\<close> of two cells; it is false as soon as one of them is NaN.\<close>

fun fle :: "float64 \<Rightarrow> float64 \<Rightarrow> bool" where
  "fle NaN _ = False"
| "fle _ NaN = False"
| "fle NInf _ = True"
| "fle _ PInf = True"
| "fle (Fin a) (Fin b) = (a \<le> b)"
| "fle _ _ = False"

text \<open>
  \<open>sort_values(col, ascending=False)\<close>, as pandas' \<open>nargsort\<close> does it: the rows whose
  key is NaN are set aside and come last in their frame order; the others are reversed,
  sorted ascending and reversed again. The ascending sort is written as an insertion
  sort, which is what numpy's default introsort runs on an array of at most 16
  elements; no statement below depends on the order it gives to rows with equal keys.
\<close>

fun insert_key :: "('a \<Rightarrow> float64) \<Rightarrow> 'a \<Rightarrow> 'a list \<Rightarrow> 'a list" where
  "insert_key k x [] = [x]"
| "insert_key k x (y # ys) =
     (if fle (k x) (k y) then x # y # ys else y # insert_key k x ys)"

definition argsort :: "('a \<Rightarrow> float64) \<Rightarrow> 'a list \<Rightarrow> 'a list" where
  "argsort k xs = foldr (insert_key k) xs []"

definition sort_values_desc :: "('a \<Rightarrow> float64) \<Rightarrow> 'a list \<Rightarrow> 'a list" where
  "sort_values_desc k xs =
     rev (argsort k (rev (filter (\<lambda>r. \<not> isnan (k r)) xs))) @ filter (\<lambda>r. isnan (k r)) xs"

text \<open>
  The three assigned columns of one row; \<open>tot\<close> is \<open>party_stats['score'].sum()\<close>.
  \<open>total_votes * 1.05\<close> is finite, so \<open>astype(int)\<close> truncates it and cannot raise.
\<close>

definition assign_row :: "float64 \<Rightarrow> party_stats \<Rightarrow> party_aggregate" where
  "assign_row tot s =
     \<lparr> stat_party = stat_party s, total_votes = total_votes s, avg_votes = avg_votes s,
       count = count s, avg_share = avg_share s,
       score = score_of s,
       win_probability = fround2 (fmul (fdiv (score_of s) tot) (Fin 100)),
       predicted_votes = py_int (of_int (total_votes s) * (105 / 100)) \<rparr>"

definition groupby_agg :: "'a derived_record_scheme list \<Rightarrow> party_stats list" where
  "groupby_agg df = map (agg df) (group_keys df)"

definition score_sum :: "'a derived_record_scheme list \<Rightarrow> float64" where
  "score_sum df = nansum (map score_of (groupby_agg df))"

definition predict_winner_ensemble :: "'a derived_record_scheme list \<Rightarrow> party_aggregate list" where
  "predict_winner_ensemble df =
     sort_values_desc win_probability (map (assign_row (score_sum df)) (groupby_agg df))"

text \<open>
  \<open>winner_prediction\<close> reads the predicted winner as \<open>predictions.iloc[0]\<close>, which
  raises \<open>IndexError\<close> on a frame without rows.
\<close>

datatype error = IndexError

definition iloc0 :: "'a list \<Rightarrow> error + 'a" where
  "iloc0 xs = (case xs of [] \<Rightarrow> Inl IndexError | x # _ \<Rightarrow> Inr x)"

definition winner_prediction :: "'a derived_record_scheme list \<Rightarrow> error + party_aggregate" where
  "winner_prediction df = iloc0 (predict_winner_ensemble df)"

section \<open>Synthesis (\<open>generate_election_data\<close>, the loops)\<close>

text \<open>
  numpy's global generator is not part of the repository: it is a parameter, a state
  \<open>'g\<close> with the four operations the function calls. Each draw returns its value and
  the next state. \<open>uniform\<close> returns a finite float.
\<close>

record 'g np_random =
  seed :: "nat \<Rightarrow> 'g"
  randint :: "int \<Rightarrow> int \<Rightarrow> 'g \<Rightarrow> int \<times> 'g"
  uniform :: "rat \<Rightarrow> rat \<Rightarrow> 'g \<Rightarrow> rat \<times> 'g"
  choice :: "string list \<Rightarrow> rat list \<Rightarrow> 'g \<Rightarrow> string \<times> 'g"

definition regions :: "string list" where
  "regions = [''North'', ''South'', ''East'', ''West'', ''Central'']"

definition parties :: "string list" where
  "parties = [''Party A'', ''Party B'', ''Party C'', ''Party D'', ''Independent'']"

text \<open>Python's \<open>str\<close> of a non-negative integer, for the f-string of the name.\<close>

fun str_nat :: "nat \<Rightarrow> string" where
  "str_nat n =
     (if n < 10 then [char_of (48 + n)]
      else str_nat (n div 10) @ [char_of (48 + n mod 10)])"

definition party_strength_range :: "string \<Rightarrow> rat \<times> rat" where
  "party_strength_range p =
     (if p = ''Party A'' then (25 / 100, 35 / 100)
      else if p = ''Party B'' then (20 / 100, 30 / 100)
      else if p = ''Party C'' then (15 / 100, 25 / 100)
      else if p = ''Party D'' then (10 / 100, 20 / 100)
      else (5 / 100, 15 / 100))"

text \<open>The body of the innermost loop: four draws and one appended dictionary.\<close>

definition party_step ::
  "'g np_random \<Rightarrow> string \<Rightarrow> int \<Rightarrow> string \<Rightarrow> int \<Rightarrow> string
     \<Rightarrow> vote_record list \<times> 'g \<Rightarrow> vote_record list \<times> 'g" where
  "party_step R reg const_id cname tv p st =
     (let (data_list, g) = st;
          (base_turnout, g1) = uniform R (6 / 10) (85 / 100) g;
          (lo, hi) = party_strength_range p;
          (party_strength, g2) = uniform R lo hi g1;
          v = py_int (of_int tv * base_turnout * party_strength);
          (status, g3) = choice R [''Complete'', ''In Progress'', ''Pending'']
                           [7 / 10, 25 / 100, 5 / 100] g2;
          (u, g4) = uniform R (75 / 100) (95 / 100) g3
      in (data_list @
            [\<lparr> region = reg, constituency_id = const_id, constituency_name = cname,
                total_voters = tv, party = p, votes = v, counting_status = status,
                counted_votes = py_int (of_int v * u) \<rparr>],
          g4))"

definition constituency_step ::
  "'g np_random \<Rightarrow> string \<Rightarrow> int \<Rightarrow> vote_record list \<times> 'g \<Rightarrow> vote_record list \<times> 'g" where
  "constituency_step R reg const_id st =
     (let (data_list, g) = st;
          cname = reg @ '' Constituency '' @ str_nat (nat const_id);
          (tv, g1) = randint R 50000 200000 g
      in fold (party_step R reg const_id cname tv) parties (data_list, g1))"

definition region_step ::
  "'g np_random \<Rightarrow> string \<Rightarrow> vote_record list \<times> 'g \<Rightarrow> vote_record list \<times> 'g" where
  "region_step R reg st = fold (constituency_step R reg) [1..20] st"

text \<open>
  The function, from the state \<open>g0\<close> in which the caller left the global generator to
  the returned frame and the state it leaves behind. Its first statement reseeds.
  (Streamlit's \<open>cache_data\<close>, which hands the stored frame to a later call, is left out:
  this is the body that runs on a call that is not served from the cache.)
\<close>

definition generate_election_data :: "'g np_random \<Rightarrow> 'g \<Rightarrow> derived_record list \<times> 'g" where
  "generate_election_data R g0 =
     (let g = seed R 42;
          (data_list, g') = fold (region_step R) regions ([], g)
      in (derive data_list, g'))"

text \<open>A row for the examples, and a small generator to run the synthesis on.\<close>

definition vote_row :: "string \<Rightarrow> string \<Rightarrow> int \<Rightarrow> vote_record" where
  "vote_row c p v =
     \<lparr> region = ''North'', constituency_id = 1, constituency_name = c,
       total_voters = 100000, party = p, votes = v, counting_status = ''Complete'',
       counted_votes = v \<rparr>"

definition counter_rng :: "nat np_random" where
  "counter_rng =
     \<lparr> seed = (\<lambda>n. n),
       randint = (\<lambda>lo hi g. (lo + int g mod (hi - lo), Suc g)),
       uniform = (\<lambda>lo hi g. (lo + (hi - lo) * (of_nat (g mod 10) / 10), Suc g)),
       choice = (\<lambda>xs ps g. (xs ! (g mod length xs), Suc g)) \<rparr>"

definition vote_row_derived :: derived_record where
  "vote_row_derived =
     \<lparr> region = ''North'', constituency_id = 1, constituency_name = ''North Constituency 1'',
       total_voters = 100000, party = ''Party A'', votes = 30000,
       counting_status = ''Complete'', counted_votes = 30000,
       total_constituency_votes = 50000, vote_share_pct = Fin 60 \<rparr>"

section \<open>The scoring contract, as the specification words it\<close>

text \<open>
  Per party: the total of its votes, the number of its rows and the mean of its vote
  shares; the score and the win probability written from the contract's formulas. The
  sums and the mean are those of the dataframe library (NaN cells skipped), taken over
  the parties in ascending order of their names.
\<close>

definition spec_total_votes :: "'a derived_record_scheme list \<Rightarrow> string \<Rightarrow> int" where
  "spec_total_votes df p = (\<Sum>r \<leftarrow> filter (\<lambda>r. party r = p) df. votes r)"

definition spec_row_count :: "'a derived_record_scheme list \<Rightarrow> string \<Rightarrow> nat" where
  "spec_row_count df p = length (filter (\<lambda>r. party r = p) df)"

definition spec_avg_share :: "'a derived_record_scheme list \<Rightarrow> string \<Rightarrow> float64" where
  "spec_avg_share df p = nanmean (map vote_share_pct (filter (\<lambda>r. party r = p) df))"

definition spec_score :: "'a derived_record_scheme list \<Rightarrow> string \<Rightarrow> float64" where
  "spec_score df p =
     fadd (fadd (fmul (Fin (of_int (spec_total_votes df p))) (Fin (1 / 2)))
                (fmul (Fin (of_nat (spec_row_count df p) * 1000)) (Fin (3 / 10))))
          (fmul (fmul (spec_avg_share df p) (Fin 100)) (Fin (1 / 5)))"

definition spec_score_total :: "'a derived_record_scheme list \<Rightarrow> float64" where
  "spec_score_total df = nansum (map (spec_score df) (sorted_list_of_set (party ` set df)))"

definition spec_quotient :: "'a derived_record_scheme list \<Rightarrow> string \<Rightarrow> float64" where
  "spec_quotient df p = fmul (fdiv (spec_score df p) (spec_score_total df)) (Fin 100)"

text \<open>
  Rounded to 2 decimals, without a rule for ties: \<open>w\<close> is a rounding of the number
  \<open>q\<close> when it is a whole number of hundredths at most 0.005 away from \<open>q\<close>. A quotient
  that is no finite number (NaN, an infinity) is left as it is.
\<close>

fun rounded_to_2_decimals :: "float64 \<Rightarrow> float64 \<Rightarrow> bool" where
  "rounded_to_2_decimals (Fin x) (Fin y) =
     (of_int \<lfloor>y * 100\<rfloor> = y * 100 \<and> \<bar>y - x\<bar> \<le> 5 / 1000)"
| "rounded_to_2_decimals (Fin x) _ = False"
| "rounded_to_2_decimals q w = (w = q)"

definition spec_win_probability :: "'a derived_record_scheme list \<Rightarrow> string \<Rightarrow> float64 \<Rightarrow> bool" where
  "spec_win_probability df p w = rounded_to_2_decimals (spec_quotient df p) w"

text \<open>A cell that holds a number that is not negative, and the number of a finite cell.\<close>

fun nonneg :: "float64 \<Rightarrow> bool" where
  "nonneg (Fin a) = (0 \<le> a)"
| "nonneg _ = False"

fun the_fin :: "float64 \<Rightarrow> rat" where
  "the_fin (Fin a) = a"
| "the_fin _ = 0"

text \<open>Descending order of two cells in which a NaN may only come last.\<close>

definition desc_nan_last :: "float64 \<Rightarrow> float64 \<Rightarrow> bool" where
  "desc_nan_last a b = (isnan b \<or> fle b a)"

text \<open>The rows of one constituency in a frame.\<close>

definition constituency_rows :: "'a vote_record_scheme list \<Rightarrow> string \<Rightarrow> 'a vote_record_scheme list" where
  "constituency_rows df c = filter (\<lambda>r. constituency_name r = c) df"

section \<open>Derivation: idempotence\<close>

lemma derive_row_fields:
  "constituency_name (derive_row df r) = constituency_name r"
  "votes (derive_row df r) = votes r"
  "party (derive_row df r) = party r"
  "total_constituency_votes (derive_row df r) = transform_sum df (constituency_name r)"
  "vote_share_pct (derive_row df r) = share_of (votes r) (transform_sum df (constituency_name r))"
  by (simp_all add: derive_row_def Let_def)

lemma transform_sum_derive: "transform_sum (derive df) c = transform_sum df c"
  by (simp add: transform_sum_def derive_def filter_map o_def derive_row_fields)

lemma derive_row_derive: "derive_row (derive df) (derive_row df r) = derive_row df r"
  by (simp add: derive_row_def Let_def transform_sum_derive)

text \<open>
  Claim C9. Deriving a frame that already carries \<open>total_constituency_votes\<close> and
  \<open>vote_share_pct\<close> gives the frame back: the two columns are recomputed from
  \<open>constituency_name\<close> and \<open>votes\<close>, which the first derivation left as they were, so no
  vote is counted twice.
\<close>

theorem derive_idempotent: "derive (derive df) = derive df"
proof -
  have "derive (derive df) = map (derive_row (derive df)) (map (derive_row df) df)"
    by (simp add: derive_def)
  also have "\<dots> = map (derive_row df) df"
    by (simp add: derive_row_derive)
  finally show ?thesis by (simp add: derive_def)
qed

theorem derive_idempotent_witness:
  "derive (derive [vote_row ''c'' ''Party A'' 30000, vote_row ''c'' ''Party B'' 20000])
     = derive [vote_row ''c'' ''Party A'' 30000, vote_row ''c'' ''Party B'' 20000]"
  by (rule derive_idempotent)

text \<open>
  Claim C3 (as stated, refuted). A constituency whose two parties have no vote has a
  total of 0; its rows receive NaN as their vote share, not 0. No exception is raised.
\<close>

theorem zero_total_share_counterexample:
  "map total_constituency_votes
       (derive [vote_row ''c'' ''Party A'' 0, vote_row ''c'' ''Party B'' 0]) = [0, 0]
   \<and> map vote_share_pct
       (derive [vote_row ''c'' ''Party A'' 0, vote_row ''c'' ''Party B'' 0]) = [NaN, NaN]
   \<and> map vote_share_pct
       (derive [vote_row ''c'' ''Party A'' 0, vote_row ''c'' ''Party B'' 0]) \<noteq> [Fin 0, Fin 0]"
  by (simp add: derive_def derive_row_def transform_sum_def share_of_def vote_row_def)

lemma sum_list_nonneg_zero:
  fixes xs :: "int list"
  assumes "\<forall>x\<in>set xs. 0 \<le> x" "sum_list xs = 0" "x \<in> set xs"
  shows "x = 0"
  using assms by (induction xs) (auto simp: add_nonneg_eq_0_iff sum_list_nonneg)

lemma share_of_zero_total:
  "share_of v 0 = (if v = 0 then NaN else if v > 0 then PInf else NInf)"
  by (simp add: share_of_def inf_of_sign_def)

text \<open>
  Claim C3 (amended). The derivation has no failing branch. In a frame whose votes are
  not negative, every row of a constituency whose total is 0 has 0 votes, and its
  \<open>vote_share_pct\<close> is NaN (zero divided by zero), not 0.
\<close>

theorem zero_total_share_is_nan:
  assumes nonneg_votes: "\<forall>r\<in>set df. 0 \<le> votes r"
    and d: "d \<in> set (derive df)"
    and zero: "total_constituency_votes d = 0"
  shows "votes d = 0 \<and> vote_share_pct d = NaN"
proof -
  from d obtain r where r: "r \<in> set df" and dr: "d = derive_row df r"
    by (auto simp: derive_def)
  let ?c = "constituency_name r"
  have t0: "transform_sum df ?c = 0"
    using zero dr by (simp add: derive_row_fields)
  have "votes r \<in> set (map votes (filter (\<lambda>s. constituency_name s = ?c) df))"
    using r by auto
  moreover have "\<forall>x\<in>set (map votes (filter (\<lambda>s. constituency_name s = ?c) df)). 0 \<le> x"
    using nonneg_votes by auto
  ultimately have v0: "votes r = 0"
    using t0 sum_list_nonneg_zero unfolding transform_sum_def by blast
  show ?thesis
    using v0 t0 dr by (simp add: derive_row_fields share_of_zero_total)
qed

theorem zero_total_share_is_nan_witness:
  "list_all (\<lambda>r. 0 \<le> votes r) [vote_row ''c'' ''Party A'' 0, vote_row ''d'' ''Party A'' 7]
   \<and> derive_row [vote_row ''c'' ''Party A'' 0, vote_row ''d'' ''Party A'' 7] (vote_row ''c'' ''Party A'' 0)
       \<in> set (derive [vote_row ''c'' ''Party A'' 0, vote_row ''d'' ''Party A'' 7])
   \<and> total_constituency_votes
       (derive_row [vote_row ''c'' ''Party A'' 0, vote_row ''d'' ''Party A'' 7] (vote_row ''c'' ''Party A'' 0)) = 0
   \<and> vote_share_pct
       (derive_row [vote_row ''c'' ''Party A'' 0, vote_row ''d'' ''Party A'' 7] (vote_row ''c'' ''Party A'' 0)) = NaN"
proof -
  let ?df = "[vote_row ''c'' ''Party A'' 0, vote_row ''d'' ''Party A'' 7]"
  let ?d = "derive_row ?df (vote_row ''c'' ''Party A'' 0)"
  have h1: "\<forall>r\<in>set ?df. 0 \<le> votes r" by (simp add: vote_row_def)
  have h2: "?d \<in> set (derive ?df)" by (simp add: derive_def)
  have h3: "total_constituency_votes ?d = 0"
    by (simp add: derive_row_fields transform_sum_def vote_row_def)
  from zero_total_share_is_nan [OF h1 h2 h3] h1 h2 h3 show ?thesis
    by (simp add: list_all_iff)
qed

section \<open>Synthesis: determinism\<close>

text \<open>
  Claim C5. The synthesizer reseeds the generator with 42 before its first draw, so the
  frame it returns (and the generator state it leaves) is the same whatever state an
  earlier call, or any other code, left the generator in: two calls give identical
  record sets, column for column. This holds for every generator.
\<close>

theorem synthesis_deterministic:
  "generate_election_data R g = generate_election_data R g'"
  by (simp add: generate_election_data_def)

theorem synthesis_deterministic_witness:
  "generate_election_data counter_rng 0
     = generate_election_data counter_rng (snd (generate_election_data counter_rng 0))"
  by (rule synthesis_deterministic)

section \<open>Scoring: the sorted frame holds the assigned rows\<close>

lemma mset_insert_key: "mset (insert_key k x ys) = add_mset x (mset ys)"
  by (induction ys) auto

lemma mset_argsort: "mset (argsort k xs) = mset xs"
  by (induction xs) (simp_all add: argsort_def mset_insert_key)

lemma mset_sort_values_desc: "mset (sort_values_desc k xs) = mset xs"
  by (simp add: sort_values_desc_def mset_argsort)

lemma set_sort_values_desc: "set (sort_values_desc k xs) = set xs"
  using mset_sort_values_desc[of k xs] by (metis set_mset_mset)

lemma set_predict:
  "set (predict_winner_ensemble df) = assign_row (score_sum df) ` set (groupby_agg df)"
  by (simp add: predict_winner_ensemble_def set_sort_values_desc)

lemma mset_predict:
  "mset (predict_winner_ensemble df) = mset (map (assign_row (score_sum df)) (groupby_agg df))"
  by (simp add: predict_winner_ensemble_def mset_sort_values_desc)

lemma group_keys_sorted_list: "group_keys df = sorted_list_of_set (party ` set df)"
  by (simp add: group_keys_def sorted_list_of_set_sort_remdups flip: set_map)

lemma set_group_keys: "set (group_keys df) = party ` set df"
  by (simp add: group_keys_def)

lemma distinct_group_keys: "distinct (group_keys df)"
  by (simp add: group_keys_def)

lemma group_keys_empty_iff: "group_keys df = [] \<longleftrightarrow> df = []"
proof -
  have "set (group_keys df) = {} \<longleftrightarrow> set df = {}"
    by (simp add: set_group_keys)
  then show ?thesis by simp
qed

lemma predict_empty_iff: "predict_winner_ensemble df = [] \<longleftrightarrow> df = []"
proof -
  have "predict_winner_ensemble df = [] \<longleftrightarrow> set (predict_winner_ensemble df) = {}" by simp
  also have "\<dots> \<longleftrightarrow> set (group_keys df) = {}"
    by (simp add: set_predict groupby_agg_def)
  also have "\<dots> \<longleftrightarrow> df = []" using group_keys_empty_iff[of df] by simp
  finally show ?thesis .
qed

lemma stat_party_assign_agg: "stat_party (assign_row t (agg df p)) = p"
  by (simp add: assign_row_def agg_def Let_def)

lemma score_of_agg: "score_of (agg df p) = spec_score df p"
  by (simp add: score_of_def agg_def Let_def spec_score_def spec_total_votes_def
      spec_row_count_def spec_avg_share_def group_rows_def)

lemma score_sum_spec: "score_sum df = spec_score_total df"
  by (simp add: score_sum_def groupby_agg_def o_def score_of_agg group_keys_sorted_list
      spec_score_total_def)

lemma parties_of_output:
  "mset (map stat_party (predict_winner_ensemble df)) = mset (group_keys df)"
proof -
  have "mset (map stat_party (predict_winner_ensemble df))
        = image_mset stat_party (mset (predict_winner_ensemble df))" by simp
  also have "\<dots> = mset (map (\<lambda>p. stat_party (assign_row (score_sum df) (agg df p))) (group_keys df))"
    by (simp add: mset_predict groupby_agg_def o_def multiset.map_comp)
  also have "\<dots> = mset (group_keys df)"
    by (simp add: stat_party_assign_agg)
  finally show ?thesis .
qed

section \<open>Scoring: the empty record set\<close>

text \<open>
  Claim C2 (as stated, refuted). On a record set without rows the scoring step does not
  fail: there is no group, so no division is carried out, and the function returns the
  frame without rows.
\<close>

theorem empty_frame_counterexample:
  "predict_winner_ensemble ([] :: derived_record list) = []"
  by (simp add: predict_winner_ensemble_def groupby_agg_def group_keys_def
      sort_values_desc_def argsort_def)

text \<open>
  Claim C2 (amended). The scoring step returns a frame without rows exactly when the
  record set has no row, and raises nothing; it is the caller's read of the first row,
  \<open>predictions.iloc[0]\<close>, that fails then, with \<open>IndexError\<close>.
\<close>

theorem empty_frame_scores_to_empty:
  "(predict_winner_ensemble df = [] \<longleftrightarrow> df = [])
   \<and> (winner_prediction df = Inl IndexError \<longleftrightarrow> df = [])"
  using predict_empty_iff[of df]
  by (auto simp: winner_prediction_def iloc0_def split: list.splits)

theorem empty_frame_scores_to_empty_witness:
  "winner_prediction ([] :: derived_record list) = Inl IndexError
   \<and> predict_winner_ensemble [vote_row_derived] \<noteq> []"
  using empty_frame_scores_to_empty [of "[] :: derived_record list"]
    empty_frame_scores_to_empty [of "[vote_row_derived]"]
  by simp

section \<open>Scoring: predicted votes\<close>

lemma py_int_nonneg: "0 \<le> t \<Longrightarrow> py_int (of_int t * (105 / 100)) = t * 21 div 20"
proof -
  assume t: "0 \<le> t"
  have eq: "(of_int t :: rat) * (105 / 100) = of_int (t * 21) / of_int 20" by simp
  have "0 \<le> (of_int t :: rat) * (105 / 100)" using t by simp
  then have "py_int (of_int t * (105 / 100)) = \<lfloor>(of_int t :: rat) * (105 / 100)\<rfloor>"
    by (simp add: py_int_def)
  also have "\<dots> = t * 21 div 20" unfolding eq by (simp only: floor_divide_of_int_eq)
  finally show ?thesis .
qed

text \<open>
  Claim C4 (as stated, refuted). A party with 12 votes has \<open>12 * 1.05 = 12.6\<close>, which
  rounds to 13; the scoring step gives 12.
\<close>

theorem predicted_votes_counterexample:
  "map total_votes (predict_winner_ensemble (derive [vote_row ''c'' ''Party A'' 12])) = [12]
   \<and> map predicted_votes (predict_winner_ensemble (derive [vote_row ''c'' ''Party A'' 12])) = [12]
   \<and> rint (12 * (105 / 100)) = 13 \<and> round (12 * (105 / 100) :: rat) = 13"
proof (intro conjI)
  show "map total_votes (predict_winner_ensemble (derive [vote_row ''c'' ''Party A'' 12])) = [12]"
    by code_simp
  show "map predicted_votes (predict_winner_ensemble (derive [vote_row ''c'' ''Party A'' 12])) = [12]"
    by code_simp
  show "rint (12 * (105 / 100)) = 13" by code_simp
  show "round (12 * (105 / 100) :: rat) = 13" by code_simp
qed

text \<open>
  Claim C4 (amended). For every party in the scoring output, \<open>predicted_votes\<close> is
  \<open>total_votes * 1.05\<close> truncated towards zero; for a total that is not negative this is
  the integer quotient of \<open>21 * total_votes\<close> by 20.
\<close>

theorem predicted_votes_truncates:
  assumes "r \<in> set (predict_winner_ensemble df)"
  shows "predicted_votes r = py_int (of_int (total_votes r) * (105 / 100))
         \<and> (0 \<le> total_votes r \<longrightarrow> predicted_votes r = total_votes r * 21 div 20)"
proof -
  from assms obtain s where "r = assign_row (score_sum df) s"
    by (auto simp: set_predict)
  then have "predicted_votes r = py_int (of_int (total_votes r) * (105 / 100))"
    by (simp add: assign_row_def)
  then show ?thesis using py_int_nonneg by simp
qed

theorem predicted_votes_truncates_witness:
  "hd (predict_winner_ensemble (derive [vote_row ''c'' ''Party A'' 12]))
     \<in> set (predict_winner_ensemble (derive [vote_row ''c'' ''Party A'' 12]))
   \<and> total_votes (hd (predict_winner_ensemble (derive [vote_row ''c'' ''Party A'' 12]))) = 12
   \<and> predicted_votes (hd (predict_winner_ensemble (derive [vote_row ''c'' ''Party A'' 12])))
       = 12 * 21 div 20"
proof -
  let ?out = "predict_winner_ensemble (derive [vote_row ''c'' ''Party A'' 12])"
  have ne: "?out \<noteq> []" by (simp add: predict_empty_iff derive_def)
  then have mem: "hd ?out \<in> set ?out" by simp
  have tv: "total_votes (hd ?out) = 12" by code_simp
  from predicted_votes_truncates [OF mem] tv mem show ?thesis by simp
qed


section \<open>Scoring: the order of the output\<close>

lemma set_insert_key: "set (insert_key k x ys) = insert x (set ys)"
  using mset_insert_key[of k x ys] by (metis set_mset_add_mset_insert set_mset_mset)

lemma fle_total: "\<not> isnan a \<Longrightarrow> \<not> isnan b \<Longrightarrow> fle a b \<or> fle b a"
  by (cases a; cases b) auto

lemma fle_trans: "fle a b \<Longrightarrow> fle b c \<Longrightarrow> fle a c"
  by (cases a; cases b; cases c) auto

lemma fle_not_nan: "fle a b \<Longrightarrow> \<not> isnan a \<and> \<not> isnan b"
  by (cases a; cases b) auto

lemma sorted_insert_key:
  assumes "\<forall>y\<in>set ys. \<not> isnan (k y)" "\<not> isnan (k x)"
    and "sorted_wrt (\<lambda>a b. fle (k a) (k b)) ys"
  shows "sorted_wrt (\<lambda>a b. fle (k a) (k b)) (insert_key k x ys)"
  using assms
proof (induction ys)
  case Nil
  then show ?case by simp
next
  case (Cons y ys)
  show ?case
  proof (cases "fle (k x) (k y)")
    case True
    then have "\<forall>z\<in>set ys. fle (k x) (k z)"
      using Cons.prems(3) fle_trans by auto
    with True Cons.prems(3) show ?thesis by simp
  next
    case False
    then have yx: "fle (k y) (k x)"
      using fle_total Cons.prems(1,2) by auto
    have "sorted_wrt (\<lambda>a b. fle (k a) (k b)) (insert_key k x ys)"
      using Cons by simp
    with False yx Cons.prems(3) show ?thesis
      by (auto simp: set_insert_key)
  qed
qed

lemma sorted_argsort:
  "\<forall>y\<in>set xs. \<not> isnan (k y) \<Longrightarrow> sorted_wrt (\<lambda>a b. fle (k a) (k b)) (argsort k xs)"
proof (induction xs)
  case Nil
  then show ?case by (simp add: argsort_def)
next
  case (Cons x xs)
  have "argsort k (x # xs) = insert_key k x (argsort k xs)" by (simp add: argsort_def)
  moreover have "\<forall>y\<in>set (argsort k xs). \<not> isnan (k y)"
    using Cons.prems mset_argsort[of k xs] by (metis list.set_intros(2) set_mset_mset)
  ultimately show ?case using Cons sorted_insert_key[of "argsort k xs" k x] by simp
qed

lemma sorted_all_nan:
  "\<forall>x\<in>set ys. isnan (k x) \<Longrightarrow> sorted_wrt (\<lambda>a b. desc_nan_last (k a) (k b)) ys"
  by (induction ys) (simp_all add: desc_nan_last_def)

lemma sorted_sort_values_desc:
  "sorted_wrt (\<lambda>a b. desc_nan_last (k a) (k b)) (sort_values_desc k xs)"
proof -
  let ?nn = "filter (\<lambda>r. \<not> isnan (k r)) xs"
  let ?na = "filter (\<lambda>r. isnan (k r)) xs"
  have asc: "sorted_wrt (\<lambda>a b. fle (k a) (k b)) (argsort k (rev ?nn))"
    by (rule sorted_argsort) simp
  have "sorted_wrt (\<lambda>a b. fle (k b) (k a)) (rev (argsort k (rev ?nn)))"
    using asc by (simp add: sorted_wrt_rev)
  then have d1: "sorted_wrt (\<lambda>a b. desc_nan_last (k a) (k b)) (rev (argsort k (rev ?nn)))"
    by (rule sorted_wrt_mono_rel[rotated]) (simp add: desc_nan_last_def)
  have d2: "sorted_wrt (\<lambda>a b. desc_nan_last (k a) (k b)) ?na"
    by (rule sorted_all_nan) simp
  have d3: "\<forall>a\<in>set (rev (argsort k (rev ?nn))). \<forall>b\<in>set ?na. desc_nan_last (k a) (k b)"
    by (simp add: desc_nan_last_def)
  show ?thesis
    unfolding sort_values_desc_def using d1 d2 d3 by (simp add: sorted_wrt_append)
qed

lemma hd_is_maximal:
  assumes "sorted_wrt (\<lambda>a b. desc_nan_last (k a) (k b)) xs" "r \<in> set xs" "\<not> isnan (k r)"
  shows "\<not> isnan (k (hd xs)) \<and> fle (k r) (k (hd xs))"
proof (cases xs)
  case Nil
  with assms show ?thesis by simp
next
  case (Cons x ys)
  show ?thesis
  proof (cases "r = x")
    case True
    with assms(3) Cons show ?thesis by (cases "k x") auto
  next
    case False
    with assms Cons have "desc_nan_last (k x) (k r)" by auto
    with assms(3) have "fle (k r) (k x)" by (simp add: desc_nan_last_def)
    with Cons fle_not_nan show ?thesis by auto
  qed
qed

text \<open>
  Claim C8. The scoring step returns its rows in descending order of
  \<open>win_probability\<close> (rows whose probability is NaN, if any, after all the others, as
  the dataframe library sorts them; with no NaN the order is plainly descending). The
  first row therefore has the maximal win probability: every row whose probability is a
  number has one at most that of the first row. On a record set with rows, the first
  row is what \<open>winner_prediction\<close> reads as the predicted winner.
\<close>

theorem output_sorted_descending:
  "sorted_wrt (\<lambda>a b. desc_nan_last (win_probability a) (win_probability b))
      (predict_winner_ensemble df)
   \<and> ((\<forall>r \<in> set (predict_winner_ensemble df). \<not> isnan (win_probability r)) \<longrightarrow>
        sorted_wrt (\<lambda>a b. fle (win_probability b) (win_probability a))
          (predict_winner_ensemble df))
   \<and> (\<forall>r \<in> set (predict_winner_ensemble df). \<not> isnan (win_probability r) \<longrightarrow>
         \<not> isnan (win_probability (hd (predict_winner_ensemble df)))
         \<and> fle (win_probability r) (win_probability (hd (predict_winner_ensemble df))))
   \<and> (df \<noteq> [] \<longrightarrow> winner_prediction df = Inr (hd (predict_winner_ensemble df)))"
proof (intro conjI ballI impI)
  show s: "sorted_wrt (\<lambda>a b. desc_nan_last (win_probability a) (win_probability b))
      (predict_winner_ensemble df)"
    unfolding predict_winner_ensemble_def by (rule sorted_sort_values_desc)
  {
    assume "\<forall>r \<in> set (predict_winner_ensemble df). \<not> isnan (win_probability r)"
    with s show "sorted_wrt (\<lambda>a b. fle (win_probability b) (win_probability a))
        (predict_winner_ensemble df)"
      by (auto simp: desc_nan_last_def elim!: sorted_wrt_mono_rel[rotated])
  }
  fix r assume "r \<in> set (predict_winner_ensemble df)" "\<not> isnan (win_probability r)"
  with s hd_is_maximal[of win_probability "predict_winner_ensemble df" r]
  show "\<not> isnan (win_probability (hd (predict_winner_ensemble df)))"
    and "fle (win_probability r) (win_probability (hd (predict_winner_ensemble df)))"
    by auto
next
  assume "df \<noteq> []"
  then have "predict_winner_ensemble df \<noteq> []" by (simp add: predict_empty_iff)
  then show "winner_prediction df = Inr (hd (predict_winner_ensemble df))"
    by (cases "predict_winner_ensemble df") (simp_all add: winner_prediction_def iloc0_def)
qed

theorem output_sorted_descending_witness:
  "map (\<lambda>r. (stat_party r, win_probability r))
       (predict_winner_ensemble
          (derive [vote_row ''c'' ''Party A'' 20000, vote_row ''c'' ''Party B'' 30000]))
     = [(''Party B'', Fin (5978 / 100)), (''Party A'', Fin (4022 / 100))]
   \<and> sorted_wrt (\<lambda>a b. fle (win_probability b) (win_probability a))
       (predict_winner_ensemble
          (derive [vote_row ''c'' ''Party A'' 20000, vote_row ''c'' ''Party B'' 30000]))
   \<and> winner_prediction (derive [vote_row ''c'' ''Party A'' 20000, vote_row ''c'' ''Party B'' 30000])
       = Inr (hd (predict_winner_ensemble
                    (derive [vote_row ''c'' ''Party A'' 20000, vote_row ''c'' ''Party B'' 30000])))"
proof -
  let ?df = "derive [vote_row ''c'' ''Party A'' 20000, vote_row ''c'' ''Party B'' 30000]"
  have v: "map (\<lambda>r. (stat_party r, win_probability r)) (predict_winner_ensemble ?df)
      = [(''Party B'', Fin (5978 / 100)), (''Party A'', Fin (4022 / 100))]"
    by code_simp
  have "map win_probability (predict_winner_ensemble ?df) = [Fin (5978 / 100), Fin (4022 / 100)]"
    using arg_cong[OF v, of "map snd"] by (simp add: o_def)
  then have "\<forall>x \<in> set (map win_probability (predict_winner_ensemble ?df)). \<not> isnan x"
    by simp
  then have nn: "\<forall>r \<in> set (predict_winner_ensemble ?df). \<not> isnan (win_probability r)"
    by simp
  have ne: "?df \<noteq> []" by (simp add: derive_def)
  from output_sorted_descending [of ?df] nn ne v show ?thesis by blast
qed


section \<open>Sums of finite cells and the rounding error\<close>

lemma foldl_fadd_Fin: "foldl fadd (Fin a) (map Fin xs) = Fin (a + sum_list xs)"
  by (induction xs arbitrary: a) (simp_all add: add.assoc)

lemma fsum_map_Fin: "fsum (map Fin xs) = Fin (sum_list xs)"
  by (simp add: fsum_def foldl_fadd_Fin)

lemma isfinite_Fin_the_fin: "isfinite x \<Longrightarrow> Fin (the_fin x) = x"
  by (cases x) simp_all

lemma finite_cells: "\<forall>x\<in>set xs. isfinite x \<Longrightarrow> map Fin (map the_fin xs) = xs"
  by (induction xs) (simp_all add: isfinite_Fin_the_fin)

lemma fsum_finite:
  assumes "\<forall>x\<in>set xs. isfinite x"
  shows "fsum xs = Fin (sum_list (map the_fin xs))"
  using fsum_map_Fin[of "map the_fin xs"] finite_cells[OF assms] by simp

lemma isfinite_not_nan: "isfinite x \<Longrightarrow> \<not> isnan x"
  by (cases x) simp_all

lemma filter_not_nan_finite:
  "\<forall>x\<in>set xs. isfinite x \<Longrightarrow> filter (\<lambda>x. \<not> isnan x) xs = xs"
  by (induction xs) (simp_all add: isfinite_not_nan)

lemma nansum_finite:
  assumes "\<forall>x\<in>set xs. isfinite x"
  shows "nansum xs = Fin (sum_list (map the_fin xs))"
  using assms by (simp add: nansum_def filter_not_nan_finite fsum_finite)

lemma nanmean_finite:
  assumes "\<forall>x\<in>set xs. isfinite x" "xs \<noteq> []"
  shows "nanmean xs = Fin (sum_list (map the_fin xs) / of_nat (length xs))"
  using assms by (simp add: nanmean_def filter_not_nan_finite fsum_finite)

lemma nonneg_iff: "nonneg x \<longleftrightarrow> isfinite x \<and> 0 \<le> the_fin x"
  by (cases x) simp_all

lemma sum_list_pos_rat:
  fixes xs :: "rat list"
  shows "xs \<noteq> [] \<Longrightarrow> \<forall>x\<in>set xs. 0 < x \<Longrightarrow> 0 < sum_list xs"
proof (induction xs)
  case Nil
  then show ?case by simp
next
  case (Cons x xs)
  have "0 \<le> sum_list xs" using Cons.prems(2) by (intro sum_list_nonneg) (auto intro: less_imp_le)
  moreover have "0 < x" using Cons.prems(2) by simp
  ultimately show ?case by simp
qed

lemma rint_error: "\<bar>of_int (rint y) - y\<bar> \<le> 1 / 2"
proof -
  have "of_int \<lfloor>y\<rfloor> \<le> y" "y < of_int \<lfloor>y\<rfloor> + 1" by linarith+
  then show ?thesis
    by (auto simp: rint_def Let_def abs_le_iff)
qed

lemma rint_nonneg: "0 \<le> y \<Longrightarrow> 0 \<le> rint y"
proof -
  assume "0 \<le> y"
  then have "0 \<le> \<lfloor>y\<rfloor>" by simp
  then show ?thesis by (simp add: rint_def Let_def)
qed

lemma rint_le: "y \<le> of_int n \<Longrightarrow> rint y \<le> n"
proof -
  assume yn: "y \<le> of_int n"
  then have fl: "\<lfloor>y\<rfloor> \<le> n" by (simp add: floor_le_iff) 
  show ?thesis
  proof (cases "\<lfloor>y\<rfloor> = n")
    case True
    then have "y - of_int \<lfloor>y\<rfloor> \<le> 0" using yn by simp
    then show ?thesis using True by (simp add: rint_def Let_def)
  next
    case False
    with fl have "\<lfloor>y\<rfloor> + 1 \<le> n" by simp
    then show ?thesis by (simp add: rint_def Let_def)
  qed
qed

lemma round2_error: "\<bar>of_int (rint (x * 100)) / 100 - x\<bar> \<le> 5 / 1000"
proof -
  have "\<bar>of_int (rint (x * 100)) - x * 100\<bar> \<le> 1 / 2" by (rule rint_error)
  then show ?thesis by (simp add: abs_le_iff field_simps)
qed

lemma rounded_sum_close:
  fixes xs :: "rat list"
  shows "\<bar>sum_list (map (\<lambda>x. of_int (rint (x * 100)) / 100) xs) - sum_list xs\<bar>
           \<le> of_nat (length xs) * (5 / 1000)"
proof (induction xs)
  case Nil
  then show ?case by simp
next
  case (Cons x xs)
  let ?r = "\<lambda>x::rat. of_int (rint (x * 100)) / (100::rat)"
  have a: "\<bar>?r x - x\<bar> \<le> 5 / 1000" by (rule round2_error)
  have "sum_list (map ?r (x # xs)) - sum_list (x # xs)
        = (?r x - x) + (sum_list (map ?r xs) - sum_list xs)" by simp
  then have "\<bar>sum_list (map ?r (x # xs)) - sum_list (x # xs)\<bar>
        \<le> \<bar>?r x - x\<bar> + \<bar>sum_list (map ?r xs) - sum_list xs\<bar>"
    by (simp only: abs_triangle_ineq)
  also have "\<dots> \<le> 5 / 1000 + of_nat (length xs) * (5 / 1000)"
    using a Cons.IH by (rule add_mono)
  also have "\<dots> = of_nat (length (x # xs)) * (5 / 1000)"
    by (simp add: algebra_simps)
  finally show ?case .
qed

lemma sum_list_percent:
  fixes c :: rat
  shows "sum_list (map (\<lambda>r. f r / c * 100) rows) = sum_list (map f rows) / c * 100"
  by (induction rows) (simp_all add: add_divide_distrib distrib_right)


section \<open>Scoring: score and win probability\<close>

lemma fround2_rounded: "rounded_to_2_decimals q (fround2 q)"
proof (cases q)
  case (Fin x)
  have "\<bar>of_int (rint (x * 100)) / 100 - x\<bar> \<le> 5 / 1000" by (rule round2_error)
  then show ?thesis using Fin by simp
qed simp_all

text \<open>
  Claim C1. The scoring step returns one row for each party of the record set, and in
  the row of a party its total, row count and mean share are those of the party's rows,
  its score is \<open>total_votes * 0.5 + row_count * 1000 * 0.3 + avg_share * 100 * 0.2\<close>, and
  its win probability is the score divided by the sum of the scores of all parties,
  times 100, rounded to 2 decimals: a whole number of hundredths at most 0.005 away
  from that quotient. (The statement needs no non-emptiness: on the empty record set
  there is no row.)
\<close>

theorem scoring_matches_contract:
  "set (map stat_party (predict_winner_ensemble df)) = party ` set df
   \<and> distinct (map stat_party (predict_winner_ensemble df))
   \<and> (\<forall>r \<in> set (predict_winner_ensemble df).
         total_votes r = spec_total_votes df (stat_party r)
       \<and> count r = spec_row_count df (stat_party r)
       \<and> avg_share r = spec_avg_share df (stat_party r)
       \<and> score r = spec_score df (stat_party r)
       \<and> spec_win_probability df (stat_party r) (win_probability r))"
proof (intro conjI ballI)
  show "set (map stat_party (predict_winner_ensemble df)) = party ` set df"
    using parties_of_output[of df] set_group_keys[of df] by (metis set_mset_mset)
  show "distinct (map stat_party (predict_winner_ensemble df))"
    using parties_of_output[of df] distinct_group_keys[of df]
    by (metis mset_eq_imp_distinct_iff)
next
  fix r assume "r \<in> set (predict_winner_ensemble df)"
  then obtain p where r: "r = assign_row (score_sum df) (agg df p)"
    by (auto simp: set_predict groupby_agg_def)
  have p: "stat_party r = p" by (simp add: r stat_party_assign_agg)
  show "total_votes r = spec_total_votes df (stat_party r)"
    unfolding p by (simp add: r assign_row_def agg_def Let_def spec_total_votes_def group_rows_def)
  show "count r = spec_row_count df (stat_party r)"
    unfolding p by (simp add: r assign_row_def agg_def Let_def spec_row_count_def group_rows_def)
  show "avg_share r = spec_avg_share df (stat_party r)"
    unfolding p by (simp add: r assign_row_def agg_def Let_def spec_avg_share_def group_rows_def)
  have sc: "score r = score_of (agg df p)" by (simp add: r assign_row_def)
  show "score r = spec_score df (stat_party r)"
    unfolding p sc by (rule score_of_agg)
  have "win_probability r = fround2 (fmul (fdiv (score_of (agg df p)) (score_sum df)) (Fin 100))"
    by (simp add: r assign_row_def)
  then have "win_probability r = fround2 (spec_quotient df p)"
    by (simp add: score_of_agg score_sum_spec spec_quotient_def)
  then show "spec_win_probability df (stat_party r) (win_probability r)"
    unfolding p spec_win_probability_def by (simp add: fround2_rounded)
qed

lemma spec_quotient_eval:
  "spec_quotient df p = fmul (fdiv (score_of (agg df p)) (score_sum df)) (Fin 100)"
  by (simp add: spec_quotient_def score_of_agg score_sum_spec)

theorem scoring_matches_contract_witness:
  "map (\<lambda>r. (stat_party r, score r, win_probability r))
       (predict_winner_ensemble
          (derive [vote_row ''c'' ''Party A'' 30000, vote_row ''c'' ''Party B'' 20000]))
     = [(''Party A'', Fin 16500, Fin (5978 / 100)), (''Party B'', Fin 11100, Fin (4022 / 100))]
   \<and> list_all (\<lambda>r. score r
                     = spec_score (derive [vote_row ''c'' ''Party A'' 30000, vote_row ''c'' ''Party B'' 20000])
                         (stat_party r)
                  \<and> spec_win_probability
                       (derive [vote_row ''c'' ''Party A'' 30000, vote_row ''c'' ''Party B'' 20000])
                       (stat_party r) (win_probability r))
       (predict_winner_ensemble
          (derive [vote_row ''c'' ''Party A'' 30000, vote_row ''c'' ''Party B'' 20000]))
   \<and> spec_quotient (derive [vote_row ''c'' ''Party A'' 28, vote_row ''c'' ''Party B'' 532]) ''Party A''
       = Fin (14375 / 1000)
   \<and> list_all (\<lambda>r. spec_win_probability
                       (derive [vote_row ''c'' ''Party A'' 28, vote_row ''c'' ''Party B'' 532])
                       (stat_party r) (win_probability r))
       (predict_winner_ensemble
          (derive [vote_row ''c'' ''Party A'' 28, vote_row ''c'' ''Party B'' 532]))
   \<and> spec_win_probability (derive [vote_row ''c'' ''Party A'' 28, vote_row ''c'' ''Party B'' 532])
       ''Party A'' (Fin (1437 / 100))
   \<and> spec_win_probability (derive [vote_row ''c'' ''Party A'' 28, vote_row ''c'' ''Party B'' 532])
       ''Party A'' (Fin (1438 / 100))"
proof -
  let ?df = "derive [vote_row ''c'' ''Party A'' 30000, vote_row ''c'' ''Party B'' 20000]"
  let ?tie = "derive [vote_row ''c'' ''Party A'' 28, vote_row ''c'' ''Party B'' 532]"
  have "map (\<lambda>r. (stat_party r, score r, win_probability r)) (predict_winner_ensemble ?df)
     = [(''Party A'', Fin 16500, Fin (5978 / 100)), (''Party B'', Fin 11100, Fin (4022 / 100))]"
    by code_simp
  moreover have "\<forall>r \<in> set (predict_winner_ensemble ?df).
      score r = spec_score ?df (stat_party r)
      \<and> spec_win_probability ?df (stat_party r) (win_probability r)"
    using scoring_matches_contract [of ?df] by blast
  moreover have q: "spec_quotient ?tie ''Party A'' = Fin (14375 / 1000)"
    unfolding spec_quotient_eval by code_simp
  moreover have "\<forall>r \<in> set (predict_winner_ensemble ?tie).
      spec_win_probability ?tie (stat_party r) (win_probability r)"
    using scoring_matches_contract [of ?tie] by blast
  moreover have "spec_win_probability ?tie ''Party A'' (Fin (1437 / 100))"
    unfolding spec_win_probability_def q by simp
  moreover have "spec_win_probability ?tie ''Party A'' (Fin (1438 / 100))"
    unfolding spec_win_probability_def q by simp
  ultimately show ?thesis by (simp only: list_all_iff)
qed

section \<open>Scoring: the scores are positive\<close>

lemma group_nonempty: "p \<in> party ` set df \<Longrightarrow> group_rows df p \<noteq> []"
  by (auto simp: group_rows_def filter_empty_conv)

lemma score_of_valid:
  assumes votes: "\<forall>r\<in>set df. 0 \<le> votes r"
    and shares: "\<forall>r\<in>set df. nonneg (vote_share_pct r)"
    and p: "p \<in> party ` set df"
  shows "isfinite (score_of (agg df p))
         \<and> of_nat (count (agg df p)) * 300 \<le> the_fin (score_of (agg df p))
         \<and> 0 < the_fin (score_of (agg df p))"
proof -
  let ?g = "group_rows df p"
  have ne: "?g \<noteq> []" using p by (rule group_nonempty)
  have sub: "set ?g \<subseteq> set df" by (auto simp: group_rows_def)
  have tv: "0 \<le> sum_list (map votes ?g)"
    using votes sub by (intro sum_list_nonneg) auto
  have fin: "\<forall>x\<in>set (map vote_share_pct ?g). isfinite x"
    using shares sub by (auto simp: nonneg_iff)
  have "\<forall>x\<in>set (map the_fin (map vote_share_pct ?g)). 0 \<le> x"
    using shares sub by (auto simp: nonneg_iff)
  then have sh: "0 \<le> sum_list (map the_fin (map vote_share_pct ?g))"
    by (intro sum_list_nonneg) auto
  define a where "a = sum_list (map the_fin (map vote_share_pct ?g)) / of_nat (length ?g)"
  have a0: "0 \<le> a" unfolding a_def using sh by simp
  have avg: "avg_share (agg df p) = Fin a"
    unfolding a_def using nanmean_finite[OF fin] ne by (simp add: agg_def Let_def)
  have sc: "score_of (agg df p)
      = Fin (of_int (sum_list (map votes ?g)) * (5 / 10)
             + of_int (int (length ?g) * 1000) * (3 / 10) + a * 100 * (2 / 10))"
    unfolding score_of_def avg by (simp add: agg_def Let_def)
  have len: "0 < length ?g" using ne by simp
  have cnt: "count (agg df p) = length ?g" by (simp add: agg_def Let_def)
  have tv': "0 \<le> (of_int (sum_list (map votes ?g)) :: rat)" using tv by simp
  have lenr: "0 < (of_nat (length ?g) :: rat)" using len by simp
  have val: "the_fin (score_of (agg df p))
      = of_int (sum_list (map votes ?g)) / 2 + of_nat (length ?g) * 300 + a * 20"
    unfolding sc by simp
  have pos: "0 < (of_nat (length ?g) :: rat) * 300" using lenr by simp
  have "isfinite (score_of (agg df p))" unfolding sc by simp
  moreover have "of_nat (count (agg df p)) * 300 \<le> the_fin (score_of (agg df p))"
    unfolding val cnt using tv' a0 by simp
  moreover have "0 < the_fin (score_of (agg df p))"
    unfolding val using tv' a0 pos by linarith
  ultimately show ?thesis by simp
qed

lemma score_sum_valid:
  assumes ne: "df \<noteq> []"
    and votes: "\<forall>r\<in>set df. 0 \<le> votes r"
    and shares: "\<forall>r\<in>set df. nonneg (vote_share_pct r)"
  shows "score_sum df = Fin (sum_list (map (the_fin \<circ> score_of) (groupby_agg df)))
         \<and> 0 < sum_list (map (the_fin \<circ> score_of) (groupby_agg df))"
proof -
  have each: "\<forall>s\<in>set (groupby_agg df). isfinite (score_of s) \<and> 0 < the_fin (score_of s)"
    using score_of_valid[OF votes shares] by (auto simp: groupby_agg_def set_group_keys)
  then have "\<forall>x\<in>set (map score_of (groupby_agg df)). isfinite x" by simp
  then have "score_sum df = Fin (sum_list (map the_fin (map score_of (groupby_agg df))))"
    unfolding score_sum_def by (rule nansum_finite)
  moreover have "groupby_agg df \<noteq> []"
    using ne by (simp add: groupby_agg_def group_keys_empty_iff)
  then have "0 < sum_list (map (the_fin \<circ> score_of) (groupby_agg df))"
    using each by (intro sum_list_pos_rat) auto
  ultimately show ?thesis by simp
qed

lemma derive_shares_nonneg:
  assumes votes: "\<forall>r\<in>set raw. 0 \<le> votes r"
    and totals: "\<forall>d\<in>set (derive raw). total_constituency_votes d \<noteq> 0"
  shows "\<forall>d\<in>set (derive raw). 0 \<le> votes d \<and> nonneg (vote_share_pct d)"
proof
  fix d assume d: "d \<in> set (derive raw)"
  then obtain r where r: "r \<in> set raw" and dr: "d = derive_row raw r"
    by (auto simp: derive_def)
  let ?t = "transform_sum raw (constituency_name r)"
  have nz: "?t \<noteq> 0" using totals d by (auto simp: dr derive_row_fields)
  have "0 \<le> ?t"
    unfolding transform_sum_def using votes by (intro sum_list_nonneg) auto
  with nz have tpos: "0 < ?t" by simp
  have v: "0 \<le> votes r" using votes r by simp
  have "0 \<le> (of_int (votes r) :: rat) / of_int ?t * 100 * 100" using v tpos by simp
  then have "0 \<le> rint (of_int (votes r) / of_int ?t * 100 * 100)" by (rule rint_nonneg)
  then have "nonneg (share_of (votes r) ?t)"
    using nz by (simp add: share_of_def)
  then show "0 \<le> votes d \<and> nonneg (vote_share_pct d)"
    using v by (simp add: dr derive_row_fields)
qed

text \<open>
  Claim C10 (as stated, refuted). A record set with one row, of a party without any
  vote in its constituency: the votes are not negative, the vote share the derivation
  computes is NaN, the party's score is NaN (not at least 300), the sum of the scores
  is 0, and the division that gives the win probability is NaN over 0.
\<close>

theorem score_positive_counterexample:
  "derive [vote_row ''z'' ''Party A'' 0] \<noteq> []
   \<and> map votes (derive [vote_row ''z'' ''Party A'' 0]) = [0]
   \<and> map vote_share_pct (derive [vote_row ''z'' ''Party A'' 0]) = [NaN]
   \<and> map (\<lambda>r. (count r, score r, win_probability r))
       (predict_winner_ensemble (derive [vote_row ''z'' ''Party A'' 0])) = [(1, NaN, NaN)]
   \<and> score_sum (derive [vote_row ''z'' ''Party A'' 0]) = Fin 0"
proof (intro conjI)
  show "derive [vote_row ''z'' ''Party A'' 0] \<noteq> []" by (simp add: derive_def)
  show "map votes (derive [vote_row ''z'' ''Party A'' 0]) = [0]" by code_simp
  show "map vote_share_pct (derive [vote_row ''z'' ''Party A'' 0]) = [NaN]" by code_simp
  show "map (\<lambda>r. (count r, score r, win_probability r))
       (predict_winner_ensemble (derive [vote_row ''z'' ''Party A'' 0])) = [(1, NaN, NaN)]"
    by code_simp
  show "score_sum (derive [vote_row ''z'' ''Party A'' 0]) = Fin 0" by code_simp
qed

text \<open>
  Claim C10 (amended). On a record set with at least one row, whose votes are not
  negative and whose vote shares are numbers that are not negative (which is what the
  derivation computes when no constituency has a total of 0), every party's score is a
  number, at least 300 times its row count and strictly positive; the sum of the scores
  is a strictly positive number, so the division that gives \<open>win_probability\<close> has a
  non-zero denominator and every win probability is a finite number.
\<close>

theorem score_positive:
  assumes ne: "df \<noteq> []"
    and votes: "\<forall>r\<in>set df. 0 \<le> votes r"
    and shares: "\<forall>r\<in>set df. nonneg (vote_share_pct r)"
  shows "(\<forall>r\<in>set (predict_winner_ensemble df).
            isfinite (score r) \<and> of_nat (count r) * 300 \<le> the_fin (score r)
            \<and> 0 < the_fin (score r) \<and> isfinite (win_probability r))
         \<and> isfinite (score_sum df) \<and> 0 < the_fin (score_sum df)"
proof (intro conjI ballI)
  from score_sum_valid[OF ne votes shares]
  obtain S where S: "score_sum df = Fin S" "0 < S" by blast
  show "isfinite (score_sum df)" "0 < the_fin (score_sum df)" using S by simp_all
  fix r assume "r \<in> set (predict_winner_ensemble df)"
  then obtain p where p: "p \<in> party ` set df" and r: "r = assign_row (score_sum df) (agg df p)"
    by (auto simp: set_predict groupby_agg_def set_group_keys)
  have sc: "score r = score_of (agg df p)" and cn: "count r = count (agg df p)"
    by (simp_all add: r assign_row_def)
  from score_of_valid[OF votes shares p]
  show "isfinite (score r)" "of_nat (count r) * 300 \<le> the_fin (score r)" "0 < the_fin (score r)"
    unfolding sc cn by simp_all
  from score_of_valid[OF votes shares p] obtain s where s: "score_of (agg df p) = Fin s"
    by (cases "score_of (agg df p)") simp_all
  show "isfinite (win_probability r)"
    using S s by (simp add: r assign_row_def)
qed

theorem score_positive_witness:
  "list_all (\<lambda>r. 0 \<le> votes r \<and> nonneg (vote_share_pct r))
       (derive [vote_row ''c'' ''Party A'' 30000, vote_row ''c'' ''Party B'' 20000])
   \<and> map (\<lambda>r. (count r, score r))
       (predict_winner_ensemble
          (derive [vote_row ''c'' ''Party A'' 30000, vote_row ''c'' ''Party B'' 20000]))
       = [(1, Fin 16500), (1, Fin 11100)]
   \<and> list_all (\<lambda>r. of_nat (count r) * 300 \<le> the_fin (score r) \<and> 0 < the_fin (score r))
       (predict_winner_ensemble
          (derive [vote_row ''c'' ''Party A'' 30000, vote_row ''c'' ''Party B'' 20000]))
   \<and> 0 < the_fin (score_sum (derive [vote_row ''c'' ''Party A'' 30000, vote_row ''c'' ''Party B'' 20000]))"
proof -
  let ?df = "derive [vote_row ''c'' ''Party A'' 30000, vote_row ''c'' ''Party B'' 20000]"
  have h: "list_all (\<lambda>r. 0 \<le> votes r \<and> nonneg (vote_share_pct r)) ?df" by code_simp
  have h1: "?df \<noteq> []" by (simp add: derive_def)
  have h2: "\<forall>r\<in>set ?df. 0 \<le> votes r" using h by (simp add: list_all_iff)
  have h3: "\<forall>r\<in>set ?df. nonneg (vote_share_pct r)" using h by (simp add: list_all_iff)
  have v: "map (\<lambda>r. (count r, score r)) (predict_winner_ensemble ?df)
      = [(1, Fin 16500), (1, Fin 11100)]" by code_simp
  from score_positive [OF h1 h2 h3] h v show ?thesis
    by (simp only: list_all_iff) blast
qed

section \<open>Derivation: the vote shares of a constituency\<close>

lemma of_int_sum_list_rat: "(of_int (sum_list xs) :: rat) = sum_list (map of_int xs)"
  by (induction xs) simp_all

lemma share_of_nonzero:
  "t \<noteq> 0 \<Longrightarrow> share_of v t = Fin (of_int (rint (of_int v / of_int t * 100 * 100)) / 100)"
  by (simp add: share_of_def)

lemma constituency_rows_derive:
  "constituency_rows (derive df) c = map (derive_row df) (constituency_rows df c)"
  by (simp add: constituency_rows_def derive_def filter_map o_def derive_row_fields)

text \<open>
  Claim C6 (as stated, refuted). Five parties with 1, 1, 1, 1 and 3 votes in one
  constituency have the shares 14.29, 14.29, 14.29, 14.29 and 42.86, which sum to
  100.02, outside [99.99, 100.01]. And in a constituency without any vote the shares
  are NaN, so that their sum is no number of that interval either.
\<close>

theorem vote_share_sum_counterexample:
  "map vote_share_pct
       (constituency_rows
          (derive [vote_row ''c'' ''Party A'' 1, vote_row ''c'' ''Party B'' 1,
                   vote_row ''c'' ''Party C'' 1, vote_row ''c'' ''Party D'' 1,
                   vote_row ''c'' ''Independent'' 3]) ''c'')
     = [Fin (1429 / 100), Fin (1429 / 100), Fin (1429 / 100), Fin (1429 / 100), Fin (4286 / 100)]
   \<and> fsum (map vote_share_pct
       (constituency_rows
          (derive [vote_row ''c'' ''Party A'' 1, vote_row ''c'' ''Party B'' 1,
                   vote_row ''c'' ''Party C'' 1, vote_row ''c'' ''Party D'' 1,
                   vote_row ''c'' ''Independent'' 3]) ''c'')) = Fin (10002 / 100)
   \<and> (10001 / 100 :: rat) < 10002 / 100
   \<and> map vote_share_pct
       (constituency_rows
          (derive [vote_row ''z'' ''Party A'' 0, vote_row ''z'' ''Party B'' 0]) ''z'') = [NaN, NaN]"
proof (intro conjI)
  let ?df = "derive [vote_row ''c'' ''Party A'' 1, vote_row ''c'' ''Party B'' 1,
                   vote_row ''c'' ''Party C'' 1, vote_row ''c'' ''Party D'' 1,
                   vote_row ''c'' ''Independent'' 3]"
  show "map vote_share_pct (constituency_rows ?df ''c'')
     = [Fin (1429 / 100), Fin (1429 / 100), Fin (1429 / 100), Fin (1429 / 100), Fin (4286 / 100)]"
    by code_simp
  show "fsum (map vote_share_pct (constituency_rows ?df ''c'')) = Fin (10002 / 100)"
    by code_simp
  show "(10001 / 100 :: rat) < 10002 / 100" by simp
  show "map vote_share_pct
       (constituency_rows
          (derive [vote_row ''z'' ''Party A'' 0, vote_row ''z'' ''Party B'' 0]) ''z'') = [NaN, NaN]"
    by code_simp
qed

text \<open>
  Claim C6 (amended). For every constituency of a derived record set whose
  \<open>total_constituency_votes\<close> is not 0, the vote shares of its rows are numbers, and
  their sum differs from 100 by at most 0.005 times the number of these rows (each
  share is rounded to 2 decimals on its own): within [99.975, 100.025] for five parties.
\<close>

theorem vote_share_sum:
  assumes d: "d \<in> set (derive df)"
    and nz: "total_constituency_votes d \<noteq> 0"
  shows "isfinite (fsum (map vote_share_pct (constituency_rows (derive df) (constituency_name d))))
       \<and> \<bar>the_fin (fsum (map vote_share_pct (constituency_rows (derive df) (constituency_name d)))) - 100\<bar>
           \<le> of_nat (length (constituency_rows (derive df) (constituency_name d))) * (5 / 1000)"
proof -
  from d obtain r where r: "r \<in> set df" and dr: "d = derive_row df r"
    by (auto simp: derive_def)
  define c where "c = constituency_name d"
  define rows where "rows = constituency_rows df c"
  define t where "t = transform_sum df c"
  have cr: "c = constituency_name r" by (simp add: c_def dr derive_row_fields)
  have t_nz: "t \<noteq> 0" using nz by (simp add: t_def cr dr derive_row_fields)
  have t_sum: "t = sum_list (map votes rows)"
    by (simp add: t_def rows_def transform_sum_def constituency_rows_def)
  define x where "x = (\<lambda>s :: 'a vote_record_scheme. (of_int (votes s) :: rat) / of_int t * 100)"
  let ?r2 = "\<lambda>y::rat. of_int (rint (y * 100)) / (100::rat)"
  have cell: "vote_share_pct (derive_row df s) = Fin (?r2 (x s))" if "s \<in> set rows" for s
  proof -
    from that have "constituency_name s = c" by (simp add: rows_def constituency_rows_def)
    then show ?thesis
      using t_nz by (simp add: derive_row_fields x_def share_of_nonzero flip: t_def)
  qed
  have cells: "map vote_share_pct (constituency_rows (derive df) c) = map Fin (map ?r2 (map x rows))"
    using cell by (simp add: constituency_rows_derive flip: rows_def)
  have total: "sum_list (map x rows) = 100"
  proof -
    have "sum_list (map x rows) = of_int (sum_list (map votes rows)) / of_int t * 100"
      unfolding x_def using sum_list_percent[of "\<lambda>s. of_int (votes s)" "of_int t" rows]
      by (simp add: of_int_sum_list_rat o_def)
    then show ?thesis using t_nz t_sum by simp
  qed
  have len: "length (constituency_rows (derive df) c) = length (map x rows)"
    by (simp add: constituency_rows_derive flip: rows_def)
  have fs: "fsum (map vote_share_pct (constituency_rows (derive df) c))
      = Fin (sum_list (map ?r2 (map x rows)))"
    unfolding cells by (rule fsum_map_Fin)
  show ?thesis
    unfolding c_def[symmetric] fs len using rounded_sum_close[of "map x rows"] total by simp
qed

theorem vote_share_sum_witness:
  "derive_row [vote_row ''c'' ''Party A'' 1, vote_row ''c'' ''Party B'' 1,
               vote_row ''c'' ''Party C'' 1, vote_row ''c'' ''Party D'' 1,
               vote_row ''c'' ''Independent'' 3] (vote_row ''c'' ''Party A'' 1)
     \<in> set (derive [vote_row ''c'' ''Party A'' 1, vote_row ''c'' ''Party B'' 1,
                     vote_row ''c'' ''Party C'' 1, vote_row ''c'' ''Party D'' 1,
                     vote_row ''c'' ''Independent'' 3])
   \<and> total_constituency_votes
       (derive_row [vote_row ''c'' ''Party A'' 1, vote_row ''c'' ''Party B'' 1,
                    vote_row ''c'' ''Party C'' 1, vote_row ''c'' ''Party D'' 1,
                    vote_row ''c'' ''Independent'' 3] (vote_row ''c'' ''Party A'' 1)) = 7
   \<and> \<bar>the_fin (fsum (map vote_share_pct
         (constituency_rows
            (derive [vote_row ''c'' ''Party A'' 1, vote_row ''c'' ''Party B'' 1,
                     vote_row ''c'' ''Party C'' 1, vote_row ''c'' ''Party D'' 1,
                     vote_row ''c'' ''Independent'' 3]) ''c''))) - 100\<bar>
       \<le> of_nat (length
           (constituency_rows
              (derive [vote_row ''c'' ''Party A'' 1, vote_row ''c'' ''Party B'' 1,
                       vote_row ''c'' ''Party C'' 1, vote_row ''c'' ''Party D'' 1,
                       vote_row ''c'' ''Independent'' 3]) ''c'')) * (5 / 1000)"
proof -
  let ?raw = "[vote_row ''c'' ''Party A'' 1, vote_row ''c'' ''Party B'' 1,
               vote_row ''c'' ''Party C'' 1, vote_row ''c'' ''Party D'' 1,
               vote_row ''c'' ''Independent'' 3]"
  let ?d = "derive_row ?raw (vote_row ''c'' ''Party A'' 1)"
  have h1: "?d \<in> set (derive ?raw)" by (simp add: derive_def)
  have t: "total_constituency_votes ?d = 7"
    by (simp add: derive_row_fields transform_sum_def vote_row_def)
  then have h2: "total_constituency_votes ?d \<noteq> 0" by simp
  have c: "constituency_name ?d = ''c''" by (simp add: derive_row_fields vote_row_def)
  from vote_share_sum [OF h1 h2] h1 t show ?thesis unfolding c by simp
qed

section \<open>Scoring: the win probabilities\<close>

lemma sum_list_perm_rat:
  fixes f :: "'a \<Rightarrow> rat"
  assumes "mset xs = mset ys"
  shows "sum_list (map f xs) = sum_list (map f ys)"
proof -
  have "sum_list (map f xs) = sum_mset (image_mset f (mset xs))"
    by (metis mset_map sum_mset_sum_list)
  also have "\<dots> = sum_mset (image_mset f (mset ys))" using assms by simp
  also have "\<dots> = sum_list (map f ys)" by (metis mset_map sum_mset_sum_list)
  finally show ?thesis .
qed

lemma member_le_sum_rat:
  fixes xs :: "rat list"
  shows "\<forall>y\<in>set xs. 0 \<le> y \<Longrightarrow> x \<in> set xs \<Longrightarrow> x \<le> sum_list xs"
proof (induction xs)
  case Nil
  then show ?case by simp
next
  case (Cons a xs)
  have nn: "0 \<le> sum_list xs" using Cons.prems(1) by (intro sum_list_nonneg) auto
  show ?case
  proof (cases "x = a")
    case True
    with nn show ?thesis by simp
  next
    case False
    with Cons have "x \<le> sum_list xs" by auto
    moreover have "0 \<le> a" using Cons.prems(1) by simp
    ultimately show ?thesis by simp
  qed
qed

lemma round2_range:
  assumes "0 \<le> x" "x \<le> 100"
  shows "0 \<le> of_int (rint (x * 100)) / (100::rat) \<and> of_int (rint (x * 100)) / (100::rat) \<le> 100"
proof -
  have lo: "0 \<le> rint (x * 100)" using assms(1) by (intro rint_nonneg) simp
  have hi: "rint (x * 100) \<le> 10000" using assms(2) by (intro rint_le) simp
  have "(0::rat) \<le> of_int (rint (x * 100))" using lo by simp
  moreover have "(of_int (rint (x * 100)) :: rat) \<le> of_int 10000"
    using hi by (simp only: of_int_le_iff)
  ultimately show ?thesis by simp
qed

text \<open>
  Claim C7 (as stated, refuted). One constituency in which five parties have 1, 1, 1, 1
  and 5 votes: the win probabilities are 40.34 and four times 14.92, which sum to
  100.02, more than 0.01 away from 100.00. And a party whose only row has a NaN vote
  share (a constituency without any vote) has a NaN win probability, which is not in
  [0, 100].
\<close>

theorem win_probability_sum_counterexample:
  "map (\<lambda>r. (stat_party r, win_probability r))
       (predict_winner_ensemble
          (derive [vote_row ''c'' ''Party A'' 1, vote_row ''c'' ''Party B'' 1,
                   vote_row ''c'' ''Party C'' 1, vote_row ''c'' ''Party D'' 1,
                   vote_row ''c'' ''Independent'' 5]))
     = [(''Independent'', Fin (4034 / 100)), (''Party A'', Fin (1492 / 100)),
        (''Party B'', Fin (1492 / 100)), (''Party C'', Fin (1492 / 100)),
        (''Party D'', Fin (1492 / 100))]
   \<and> fsum (map win_probability
       (predict_winner_ensemble
          (derive [vote_row ''c'' ''Party A'' 1, vote_row ''c'' ''Party B'' 1,
                   vote_row ''c'' ''Party C'' 1, vote_row ''c'' ''Party D'' 1,
                   vote_row ''c'' ''Independent'' 5]))) = Fin (10002 / 100)
   \<and> (10001 / 100 :: rat) < 10002 / 100
   \<and> map win_probability (predict_winner_ensemble (derive [vote_row ''z'' ''Party A'' 0]))
       = [NaN]"
proof (intro conjI)
  let ?df = "derive [vote_row ''c'' ''Party A'' 1, vote_row ''c'' ''Party B'' 1,
                   vote_row ''c'' ''Party C'' 1, vote_row ''c'' ''Party D'' 1,
                   vote_row ''c'' ''Independent'' 5]"
  show "map (\<lambda>r. (stat_party r, win_probability r)) (predict_winner_ensemble ?df)
     = [(''Independent'', Fin (4034 / 100)), (''Party A'', Fin (1492 / 100)),
        (''Party B'', Fin (1492 / 100)), (''Party C'', Fin (1492 / 100)),
        (''Party D'', Fin (1492 / 100))]"
    by code_simp
  show "fsum (map win_probability (predict_winner_ensemble ?df)) = Fin (10002 / 100)"
    by code_simp
  show "(10001 / 100 :: rat) < 10002 / 100" by simp
  show "map win_probability (predict_winner_ensemble (derive [vote_row ''z'' ''Party A'' 0]))
       = [NaN]"
    by code_simp
qed

text \<open>
  Claim C7 (amended). On a record set with at least one row, whose votes are not
  negative and whose vote shares are numbers that are not negative, every win
  probability is a number in [0, 100], and the sum of the win probabilities differs from
  100 by at most 0.005 times the number of parties (each probability is rounded to 2
  decimals on its own): within [99.975, 100.025] for five parties.
\<close>

theorem win_probability_sum:
  assumes ne: "df \<noteq> []"
    and votes: "\<forall>r\<in>set df. 0 \<le> votes r"
    and shares: "\<forall>r\<in>set df. nonneg (vote_share_pct r)"
  shows "(\<forall>r\<in>set (predict_winner_ensemble df).
            isfinite (win_probability r) \<and> 0 \<le> the_fin (win_probability r)
            \<and> the_fin (win_probability r) \<le> 100)
       \<and> isfinite (fsum (map win_probability (predict_winner_ensemble df)))
       \<and> \<bar>the_fin (fsum (map win_probability (predict_winner_ensemble df))) - 100\<bar>
           \<le> of_nat (length (predict_winner_ensemble df)) * (5 / 1000)"
proof -
  let ?out = "predict_winner_ensemble df"
  let ?stats = "groupby_agg df"
  let ?r2 = "\<lambda>y::rat. of_int (rint (y * 100)) / (100::rat)"
  define S where "S = sum_list (map (the_fin \<circ> score_of) ?stats)"
  have S: "score_sum df = Fin S" "0 < S"
    using score_sum_valid[OF ne votes shares] by (simp_all add: S_def)
  have each: "isfinite (score_of s) \<and> 0 < the_fin (score_of s)" if "s \<in> set ?stats" for s
    using that score_of_valid[OF votes shares] by (auto simp: groupby_agg_def set_group_keys)
  define x where "x = (\<lambda>s :: party_stats. the_fin (score_of s) / S * 100)"
  have wp: "win_probability (assign_row (score_sum df) s) = Fin (?r2 (x s))" if "s \<in> set ?stats" for s
  proof -
    from each[OF that] obtain v where "score_of s = Fin v" by (cases "score_of s") simp_all
    then show ?thesis using S by (simp add: assign_row_def x_def)
  qed
  have xr: "0 \<le> x s \<and> x s \<le> 100" if "s \<in> set ?stats" for s
  proof -
    have "\<forall>y\<in>set (map (the_fin \<circ> score_of) ?stats). 0 \<le> y"
      using each by (auto intro: less_imp_le)
    moreover have "the_fin (score_of s) \<in> set (map (the_fin \<circ> score_of) ?stats)"
      using that by auto
    ultimately have "the_fin (score_of s) \<le> S"
      unfolding S_def by (rule member_le_sum_rat)
    moreover have "0 \<le> the_fin (score_of s)" using each[OF that] by simp
    ultimately show ?thesis using S(2) by (simp add: x_def field_simps)
  qed
  have rows: "\<forall>r\<in>set ?out. isfinite (win_probability r) \<and> 0 \<le> the_fin (win_probability r)
            \<and> the_fin (win_probability r) \<le> 100"
  proof
    fix r assume "r \<in> set ?out"
    then obtain s where s: "s \<in> set ?stats" and r: "r = assign_row (score_sum df) s"
      by (auto simp: set_predict)
    from xr[OF s] round2_range[of "x s"] show "isfinite (win_probability r) \<and> 0 \<le> the_fin (win_probability r)
            \<and> the_fin (win_probability r) \<le> 100"
      unfolding r wp[OF s] by simp
  qed
  have fin: "\<forall>c\<in>set (map win_probability ?out). isfinite c" using rows by simp
  have fs: "fsum (map win_probability ?out) = Fin (sum_list (map (the_fin \<circ> win_probability) ?out))"
    using fsum_finite[OF fin] by (simp add: o_def)
  have "sum_list (map (the_fin \<circ> win_probability) ?out)
      = sum_list (map (the_fin \<circ> win_probability) (map (assign_row (score_sum df)) ?stats))"
    by (rule sum_list_perm_rat) (rule mset_predict)
  also have "\<dots> = sum_list (map ?r2 (map x ?stats))"
    using wp by (simp add: o_def cong: map_cong)
  finally have sum_eq: "sum_list (map (the_fin \<circ> win_probability) ?out)
      = sum_list (map ?r2 (map x ?stats))" .
  have total: "sum_list (map x ?stats) = 100"
  proof -
    have "sum_list (map x ?stats) = sum_list (map (the_fin \<circ> score_of) ?stats) / S * 100"
      unfolding x_def using sum_list_percent[of "the_fin \<circ> score_of" S ?stats] by (simp add: o_def)
    then show ?thesis using S(2) by (simp add: S_def[symmetric])
  qed
  have len: "length ?out = length (map x ?stats)"
    using mset_predict[of df] by (metis length_map size_mset)
  have "\<bar>the_fin (fsum (map win_probability ?out)) - 100\<bar> \<le> of_nat (length ?out) * (5 / 1000)"
    unfolding fs len sum_eq using rounded_sum_close[of "map x ?stats"] total by simp
  with rows fs show ?thesis by simp
qed

theorem win_probability_sum_witness:
  "list_all (\<lambda>r. 0 \<le> votes r \<and> nonneg (vote_share_pct r))
       (derive [vote_row ''c'' ''Party A'' 1, vote_row ''c'' ''Party B'' 1,
                vote_row ''c'' ''Party C'' 1, vote_row ''c'' ''Party D'' 1,
                vote_row ''c'' ''Independent'' 5])
   \<and> list_all (\<lambda>r. 0 \<le> the_fin (win_probability r) \<and> the_fin (win_probability r) \<le> 100)
       (predict_winner_ensemble
          (derive [vote_row ''c'' ''Party A'' 1, vote_row ''c'' ''Party B'' 1,
                   vote_row ''c'' ''Party C'' 1, vote_row ''c'' ''Party D'' 1,
                   vote_row ''c'' ''Independent'' 5]))
   \<and> \<bar>the_fin (fsum (map win_probability
         (predict_winner_ensemble
            (derive [vote_row ''c'' ''Party A'' 1, vote_row ''c'' ''Party B'' 1,
                     vote_row ''c'' ''Party C'' 1, vote_row ''c'' ''Party D'' 1,
                     vote_row ''c'' ''Independent'' 5])))) - 100\<bar>
       \<le> of_nat (length
           (predict_winner_ensemble
              (derive [vote_row ''c'' ''Party A'' 1, vote_row ''c'' ''Party B'' 1,
                       vote_row ''c'' ''Party C'' 1, vote_row ''c'' ''Party D'' 1,
                       vote_row ''c'' ''Independent'' 5]))) * (5 / 1000)"
proof -
  let ?df = "derive [vote_row ''c'' ''Party A'' 1, vote_row ''c'' ''Party B'' 1,
                     vote_row ''c'' ''Party C'' 1, vote_row ''c'' ''Party D'' 1,
                     vote_row ''c'' ''Independent'' 5]"
  have h: "list_all (\<lambda>r. 0 \<le> votes r \<and> nonneg (vote_share_pct r)) ?df" by code_simp
  have h1: "?df \<noteq> []" by (simp add: derive_def)
  have h2: "\<forall>r\<in>set ?df. 0 \<le> votes r" using h by (simp add: list_all_iff)
  have h3: "\<forall>r\<in>set ?df. nonneg (vote_share_pct r)" using h by (simp add: list_all_iff)
  from win_probability_sum [OF h1 h2 h3] h show ?thesis
    by (simp only: list_all_iff) blast
qed


end
